theory Spec2Isabelle
  imports Complex_Main "HOL-Library.Multiset"
begin

section \<open>Shared data: byte strings, verdicts, Python errors\<close>

text \<open>
  A Python \<^verbatim>\<open>bytes\<close> object is a list of 8-bit characters; the zero byte is
  \<open>CHR 0x00\<close>. Exceptions the scripts do not catch are values of \<open>py_error\<close>.
\<close>

type_synonym bytes = "char list"

datatype py_error = StructError | ValueError | ZeroDivisionError | OverflowError

datatype verdict = PASS | PARTIAL | FAIL

text \<open>\<^verbatim>\<open>sum(1 for b in trailing if b != 0)\<close>\<close>

definition count_non_zero :: "bytes \<Rightarrow> nat" where
  "count_non_zero trailing = length (filter (\<lambda>b. b \<noteq> CHR 0x00) trailing)"

text \<open>\<^verbatim>\<open>sum(1 for a, b in zip(rx_data, test_data) if a != b)\<close>\<close>

definition count_mismatches :: "bytes \<Rightarrow> bytes \<Rightarrow> nat" where
  "count_mismatches rx_data test_data =
     length (filter (\<lambda>(a, b). a \<noteq> b) (zip rx_data test_data))"

section \<open>Double-precision arithmetic\<close>

text \<open>
  Python floats and numpy's \<^verbatim>\<open>float64\<close> are IEEE 754 doubles: every arithmetic
  operation returns the exact result rounded to the nearest number with a 53-bit
  significand, a tie going to the even significand. \<open>np_round\<close> is that rounding to an
  integer (\<^verbatim>\<open>np.round\<close> on a double, which is exact), and \<open>fl\<close> rounds a real to a
  double: \<open>\<lfloor>log 2 \<bar>x\<bar>\<rfloor>\<close> is the binary exponent of \<open>x\<close> and the last significand bit
  has the weight \<open>2 powr (exponent - 52)\<close>. The exponent range is not bounded in
  \<open>fl\<close>, so it is the hardware rounding for results of magnitude between \<open>2^-1022\<close>
  and \<open>2^1024\<close>; an overflow is written out where the code can reach it.
\<close>

definition np_round :: "real \<Rightarrow> int" where
  "np_round x =
     (let f = \<lfloor>x\<rfloor>; d = x - of_int f
      in if d < 1/2 then f else if d > 1/2 then f + 1 else if even f then f else f + 1)"

definition fl :: "real \<Rightarrow> real" where
  "fl x =
     (if x = 0 then 0
      else (let ulp = 2 powr of_int (\<lfloor>log 2 \<bar>x\<bar>\<rfloor> - 52)
            in of_int (np_round (x / ulp)) * ulp))"


section \<open>AFC sweep, matrix variant (server/test\_afc.py, lines 113--136)\<close>

text \<open>
  The result check at the end of \<^verbatim>\<open>test_freq_offset\<close>. Each constructor is one
  printed line; the arguments are the numbers the line prints or is computed from
  (\<open>Afc_fail_ber errors denominator\<close>: the printed rate is \<open>errors / denominator\<close>).
\<close>

datatype afc_outcome =
    Afc_pass_exact nat
  | Afc_pass_trailing nat nat
  | Afc_fail_garbage nat
  | Afc_fail_ber nat nat
  | Afc_fail_no_data

definition test_freq_offset_check :: "bytes \<Rightarrow> bytes \<Rightarrow> afc_outcome" where
  "test_freq_offset_check test_data rx_data =
     (if rx_data = test_data then Afc_pass_exact (length rx_data)
      else if rx_data \<noteq> [] \<and> take (length test_data) rx_data = test_data then
        (let trailing = drop (length test_data) rx_data;
             non_zero = count_non_zero trailing
         in if non_zero \<le> 5 then Afc_pass_trailing (length test_data) (length trailing)
            else Afc_fail_garbage non_zero)
      else if rx_data \<noteq> [] then
        (let errors = int (count_mismatches rx_data test_data);
             errors = errors + max 0 (int (length test_data) - int (length rx_data))
         in Afc_fail_ber (nat errors) (max (length test_data) 1))
      else Afc_fail_no_data)"

text \<open>The function returns \<^verbatim>\<open>True\<close> on the PASS lines and \<^verbatim>\<open>False\<close> on the FAIL lines.\<close>

fun afc_verdict :: "afc_outcome \<Rightarrow> verdict" where
  "afc_verdict (Afc_pass_exact _) = PASS"
| "afc_verdict (Afc_pass_trailing _ _) = PASS"
| "afc_verdict (Afc_fail_garbage _) = FAIL"
| "afc_verdict (Afc_fail_ber _ _) = FAIL"
| "afc_verdict Afc_fail_no_data = FAIL"

section \<open>AFC sweep, verbose variant (server/test\_2400s\_afc.py, lines 126--143)\<close>

datatype verbose_outcome =
    Verbose_pass_zeros nat
  | Verbose_partial nat
  | Verbose_pass_exact
  | Verbose_fail nat

definition test_with_verbose_check :: "bytes \<Rightarrow> bytes \<Rightarrow> verbose_outcome" where
  "test_with_verbose_check test_data rx_data =
     (if take (length test_data) rx_data = test_data then
        (let non_zero = count_non_zero (drop (length test_data) rx_data)
         in if non_zero = 0 then Verbose_pass_zeros (length rx_data - length test_data)
            else Verbose_partial non_zero)
      else if rx_data = test_data then Verbose_pass_exact
      else
        (let errors = int (count_mismatches rx_data test_data);
             errors = errors + \<bar>int (length rx_data) - int (length test_data)\<bar>
         in Verbose_fail (nat errors)))"

fun verbose_verdict :: "verbose_outcome \<Rightarrow> verdict" where
  "verbose_verdict (Verbose_pass_zeros _) = PASS"
| "verbose_verdict (Verbose_partial _) = PARTIAL"
| "verbose_verdict Verbose_pass_exact = PASS"
| "verbose_verdict (Verbose_fail _) = FAIL"

section \<open>AWGN test (server/test\_awgn.py, lines 113--119)\<close>

text \<open>\<open>Awgn_fail errors n\<close> prints ``FAIL - errors byte errors in first n bytes''.\<close>

datatype awgn_outcome = Awgn_pass | Awgn_fail nat nat

definition test_awgn_check :: "bytes \<Rightarrow> bytes \<Rightarrow> awgn_outcome" where
  "test_awgn_check test_data rx_data =
     (if take (length test_data) rx_data = test_data then Awgn_pass
      else Awgn_fail (count_mismatches rx_data test_data)
                     (min (length rx_data) (length test_data)))"

fun awgn_verdict :: "awgn_outcome \<Rightarrow> verdict" where
  "awgn_verdict Awgn_pass = PASS"
| "awgn_verdict (Awgn_fail _ _) = FAIL"

definition awgn_test_data :: bytes where
  "awgn_test_data = ''Test Message 12345''"

section \<open>Reference suite (test\_ref\_pcm.py, lines 146--153)\<close>

text \<open>
  \<^verbatim>\<open>decoded\<close> is a Python \<^verbatim>\<open>str\<close>: a list of Unicode code points (the bytes are
  decoded with \<^verbatim>\<open>errors='replace'\<close>, so U+FFFD can occur). \<open>py_str\<close> embeds an
  ASCII literal. \<open>str_contains sub s\<close> is Python's \<^verbatim>\<open>sub in s\<close>.
\<close>

type_synonym py_str = "nat list"

definition py_str :: "string \<Rightarrow> py_str" where
  "py_str s = map of_char s"

fun str_contains :: "'a list \<Rightarrow> 'a list \<Rightarrow> bool" where
  "str_contains sub [] = (sub = [])"
| "str_contains sub (c # cs) = (take (length sub) (c # cs) = sub \<or> str_contains sub cs)"

definition test_mode_success :: "py_str \<Rightarrow> bool" where
  "test_mode_success decoded =
     (let has_expected_content =
            (str_contains (py_str ''QUICK BROWN FOX'') decoded
             \<or> str_contains (py_str ''THE QUICK BROWN FOX'') decoded);
          success = (length decoded > 0 \<and> has_expected_content)
      in success)"

text \<open>The printed result line: \<^verbatim>\<open>'PASS' if success else 'FAIL'\<close>.\<close>

definition test_mode_verdict :: "py_str \<Rightarrow> verdict" where
  "test_mode_verdict decoded = (if test_mode_success decoded then PASS else FAIL)"

section \<open>Waiting for the capture filename (test\_afc.py 53--69, debug\_tcp.py 63--83,
  test\_awgn.py 50--67, test\_2400s\_afc.py 55--72)\<close>

text \<open>
  One \<^verbatim>\<open>ctrl.recv(4096)\<close> either returns a chunk (empty when the peer has closed) or
  raises \<^verbatim>\<open>socket.timeout\<close>. The list given to the loop holds the results of the
  calls made before the 15-second deadline passes; when it is used up the
  \<^verbatim>\<open>while\<close> condition is false and the loop ends.
\<close>

datatype recv_result = Chunk bytes | Timeout

datatype wait_error = NonAsciiChunk

text \<open>
  \<^verbatim>\<open>chunk.decode()\<close>: an ASCII chunk decodes to itself. A chunk with a byte from
  \<open>0x80\<close> on either raises \<^verbatim>\<open>UnicodeDecodeError\<close> or is valid UTF-8 and decodes to
  code points beyond a byte, from which the code goes on to extract the path; both are
  reported as \<open>NonAsciiChunk\<close> and not followed further, so the model covers ASCII
  streams only. (debug\_tcp.py also decodes every chunk for its trace line, marker or
  not; on ASCII streams that changes nothing.)
\<close>

definition decode_chunk :: "bytes \<Rightarrow> wait_error + string" where
  "decode_chunk chunk =
     (if list_all (\<lambda>c. (of_char c :: nat) < 128) chunk then Inr chunk else Inl NonAsciiChunk)"

text \<open>\<^verbatim>\<open>str.strip()\<close> removes the ASCII characters for which \<^verbatim>\<open>str.isspace\<close> holds.\<close>

definition py_isspace :: "char \<Rightarrow> bool" where
  "py_isspace c = (let n = (of_char c :: nat) in (9 \<le> n \<and> n \<le> 13) \<or> (28 \<le> n \<and> n \<le> 32))"

definition str_strip :: "string \<Rightarrow> string" where
  "str_strip s = rev (dropWhile py_isspace (rev (dropWhile py_isspace s)))"

text \<open>\<^verbatim>\<open>s.split('\n')[0]\<close>\<close>

definition first_line :: "string \<Rightarrow> string" where
  "first_line s = takeWhile (\<lambda>c. c \<noteq> CHR 0x0A) s"

text \<open>\<^verbatim>\<open>text.find(sub)\<close>: the index of the first occurrence, or \<open>-1\<close>.\<close>

fun str_find :: "string \<Rightarrow> string \<Rightarrow> int" where
  "str_find sub [] = (if sub = [] then 0 else - 1)"
| "str_find sub (c # cs) =
     (if take (length sub) (c # cs) = sub then 0
      else (let r = str_find sub cs in if r < 0 then - 1 else r + 1))"

text \<open>The body of \<^verbatim>\<open>if b'FILE:' in chunk:\<close>, giving the new value of \<^verbatim>\<open>pcm_file\<close>.\<close>

definition extract_pcm_file :: "bytes \<Rightarrow> string option \<Rightarrow> wait_error + string option" where
  "extract_pcm_file chunk pcm_file =
     (if str_contains ''FILE:'' chunk then
        (case decode_chunk chunk of
           Inl e \<Rightarrow> Inl e
         | Inr text \<Rightarrow>
             (let idx = str_find ''FILE:'' text
              in if idx \<ge> 0 then Inr (Some (first_line (str_strip (drop (nat (idx + 5)) text))))
                 else Inr pcm_file))
      else Inr pcm_file)"

fun wait_loop :: "recv_result list \<Rightarrow> bytes \<Rightarrow> string option \<Rightarrow> wait_error + string option" where
  "wait_loop [] response pcm_file = Inr pcm_file"
| "wait_loop (Timeout # rest) response pcm_file = Inr pcm_file"
| "wait_loop (Chunk chunk # rest) response pcm_file =
     (if chunk \<noteq> [] then
        (let response = response @ chunk
         in case extract_pcm_file chunk pcm_file of
              Inl e \<Rightarrow> Inl e
            | Inr pcm_file \<Rightarrow>
                if str_contains ''OK:SENDBUFFER'' response then Inr pcm_file
                else wait_loop rest response pcm_file)
      else wait_loop rest response pcm_file)"

text \<open>The loop from its initial state: \<^verbatim>\<open>pcm_file = None\<close>, \<^verbatim>\<open>response = b''\<close>.\<close>

definition wait_for_pcm_file :: "recv_result list \<Rightarrow> wait_error + string option" where
  "wait_for_pcm_file recvs = wait_loop recvs [] None"

section \<open>PCM analyzer (compare\_pcm.py)\<close>

subsection \<open>analyze\_pcm, lines 9--84\<close>

text \<open>\<^verbatim>\<open>struct.unpack(f'<{num_samples}h', data)\<close>: little-endian signed 16-bit samples;
  a buffer whose length is not \<open>2 * num_samples\<close> raises \<^verbatim>\<open>struct.error\<close>.\<close>

definition le_int16 :: "char \<Rightarrow> char \<Rightarrow> int" where
  "le_int16 lo hi =
     (let u = of_char lo + 256 * of_char hi in if u \<ge> 32768 then u - 65536 else u)"

fun unpack_pairs :: "bytes \<Rightarrow> int list" where
  "unpack_pairs (lo # hi # rest) = le_int16 lo hi # unpack_pairs rest"
| "unpack_pairs _ = []"

definition struct_unpack_h :: "nat \<Rightarrow> bytes \<Rightarrow> py_error + int list" where
  "struct_unpack_h num_samples data =
     (if length data \<noteq> 2 * num_samples then Inl StructError else Inr (unpack_pairs data))"

text \<open>
  The report, restricted to the fields that are computed exactly from the integer
  samples. The mean, the RMS, the crest factor, the FFT-derived fields and the four
  histogram percentages are floating-point results and are not part of this record.
\<close>

record pcm_report =
  size_bytes :: nat
  samples :: nat
  min_sample :: int
  max_sample :: int
  peak :: int
  silent :: nat
  low :: nat
  med :: nat
  high :: nat

text \<open>
  \<^verbatim>\<open>np.min\<close> and \<^verbatim>\<open>np.max\<close> of an empty array raise \<^verbatim>\<open>ValueError\<close> (line 17), and so
  does \<^verbatim>\<open>np.argmax(magnitude[10:])\<close> (line 47) when the spectrum, which has
  \<open>num_samples div 2 + 1\<close> bins, has no bin from index 10 on.
\<close>

definition analyze_pcm :: "bytes \<Rightarrow> py_error + pcm_report" where
  "analyze_pcm data =
     (let num_samples = length data div 2
      in case struct_unpack_h num_samples data of
           Inl e \<Rightarrow> Inl e
         | Inr smp \<Rightarrow>
             if smp = [] then Inl ValueError
             else
               (let mn = fold min smp (hd smp);
                    mx = fold max smp (hd smp);
                    pk = max \<bar>mn\<bar> \<bar>mx\<bar>;
                    n_bins = num_samples div 2 + 1
                in if n_bins \<le> 10 then Inl ValueError
                   else
                     (let abs_samples = map abs smp;
                          sl = length (filter (\<lambda>a. a < 100) abs_samples);
                          lw = length (filter (\<lambda>a. a \<ge> 100 \<and> a < 3000) abs_samples);
                          md = length (filter (\<lambda>a. a \<ge> 3000 \<and> a < 10000) abs_samples);
                          hg = length (filter (\<lambda>a. a \<ge> 10000) abs_samples)
                      in Inr \<lparr> size_bytes = length data, samples = num_samples,
                               min_sample = mn, max_sample = mx, peak = pk,
                               silent = sl, low = lw, med = md, high = hg \<rparr>)))"

subsection \<open>Top spectral peaks, lines 50--52 and 75\<close>

text \<open>
  The magnitude spectrum comes from the FFT library and is an input here, a list of
  doubles. \<^verbatim>\<open>np.argsort\<close> sorts with an unstable algorithm, so any ascending
  arrangement of the bin indices can be its result: \<open>is_argsort magnitude idx\<close> says
  that \<open>idx\<close> is one.
\<close>

definition is_argsort :: "real list \<Rightarrow> nat list \<Rightarrow> bool" where
  "is_argsort magnitude idx =
     (mset idx = mset [0..<length magnitude] \<and> sorted (map (\<lambda>i. magnitude ! i) idx))"

text \<open>\<^verbatim>\<open>np.argsort(magnitude)[-10:][::-1]\<close>\<close>

definition top_indices :: "nat list \<Rightarrow> nat list" where
  "top_indices argsorted = rev (drop (length argsorted - 10) argsorted)"

text \<open>The list comprehension of line 52, as bin indices, and the reported
  \<^verbatim>\<open>top_freqs[:5]\<close> of line 75.\<close>

definition top_bins :: "real list \<Rightarrow> nat list \<Rightarrow> nat list" where
  "top_bins freqs argsorted = filter (\<lambda>i. freqs ! i > 100) (top_indices argsorted)"

definition top_freqs_5 :: "real list \<Rightarrow> real list \<Rightarrow> nat list \<Rightarrow> (real \<times> real) list" where
  "top_freqs_5 freqs magnitude argsorted =
     take 5 (map (\<lambda>i. (freqs ! i, magnitude ! i)) (top_bins freqs argsorted))"

text \<open>
  \<^verbatim>\<open>np.fft.rfftfreq(n, 1/48000)\<close> for \<open>n > 0\<close>, as numpy computes it in doubles:
  \<^verbatim>\<open>val = 1.0/(n*d)\<close> and bin \<open>i\<close> of \<open>n div 2 + 1\<close> lies at \<^verbatim>\<open>i * val\<close>, where
  \<^verbatim>\<open>d\<close> is the double \<^verbatim>\<open>1/48000\<close>.
\<close>

definition rfftfreq :: "nat \<Rightarrow> real list" where
  "rfftfreq n =
     (let d = fl (1 / 48000);
          val = fl (1 / fl (real n * d))
      in map (\<lambda>i. fl (real i * val)) [0..<n div 2 + 1])"

subsection \<open>compare, lines 117--129\<close>

text \<open>The three fields of a report that \<^verbatim>\<open>compare\<close> reads; Python floats read as reals.\<close>

record analysis =
  rms :: real
  peak_freq_fft :: real
  dc_offset :: real

datatype issue = Large_RMS_difference | Peak_frequency_differs | High_DC_offset

definition compare :: "analysis \<Rightarrow> analysis \<Rightarrow> issue list" where
  "compare a b =
     (let issues = [];
          issues = (if rms b > 0 then
                      (let rms_ratio = rms a / rms b
                       in if rms_ratio < 0.5 \<or> rms_ratio > 2.0
                          then issues @ [Large_RMS_difference] else issues)
                    else issues);
          freq_diff = \<bar>peak_freq_fft a - peak_freq_fft b\<bar>;
          issues = (if freq_diff > 50 then issues @ [Peak_frequency_differs] else issues);
          issues = (if \<bar>dc_offset a\<bar> > 500 \<or> \<bar>dc_offset b\<bar> > 500
                    then issues @ [High_DC_offset] else issues)
      in issues)"

section \<open>Preamble decoder (analyze\_preamble.py)\<close>

text \<open>
  Line 19: \<^verbatim>\<open>int(sample_rate / baud_rate)\<close> on Python integers. The true division
  raises \<^verbatim>\<open>ZeroDivisionError\<close> for a zero divisor and otherwise returns the exact
  quotient rounded once to a double (\<^verbatim>\<open>OverflowError\<close> when that is beyond the
  double range); \<^verbatim>\<open>int\<close> drops the fractional part (rounds toward zero).
\<close>

definition py_int :: "real \<Rightarrow> int" where
  "py_int x = (if x \<ge> 0 then \<lfloor>x\<rfloor> else \<lceil>x\<rceil>)"

definition samples_per_symbol :: "int \<Rightarrow> int \<Rightarrow> py_error + int" where
  "samples_per_symbol sample_rate baud_rate =
     (if baud_rate = 0 then Inl ZeroDivisionError
      else (let q = fl (of_int sample_rate / of_int baud_rate)
            in if \<bar>q\<bar> \<ge> 2 ^ 1024 then Inl OverflowError else Inr (py_int q)))"



section \<open>Properties\<close>

lemma count_mismatches_card:
  "count_mismatches xs ys = card {i. i < min (length xs) (length ys) \<and> xs ! i \<noteq> ys ! i}"
proof -
  have "{i. i < length (zip xs ys) \<and> (case zip xs ys ! i of (a, b) \<Rightarrow> a \<noteq> b)}
      = {i. i < min (length xs) (length ys) \<and> xs ! i \<noteq> ys ! i}"
    by auto
  then show ?thesis
    by (simp add: count_mismatches_def length_filter_conv_card)
qed

subsection \<open>Verdicts of the AFC sweeps\<close>

text \<open>
  Claim C2, as the code has it. Let the received bytes \<open>R\<close> start with the sent message
  \<open>S\<close> and be longer than it. In the matrix variant (test\_afc.py) the verdict is PASS
  when at most 5 of the trailing bytes \<open>R[len(S):]\<close> are non-zero and FAIL when 6 or
  more are. In the verbose variant (test\_2400s\_afc.py) the verdict is PASS only when
  no trailing byte is non-zero, and PARTIAL otherwise.
\<close>

theorem afc_trailing_bytes_verdict:
  assumes "take (length S) R = S" and "length S < length R"
  shows "afc_verdict (test_freq_offset_check S R)
           = (if count_non_zero (drop (length S) R) \<le> 5 then PASS else FAIL)
       \<and> verbose_verdict (test_with_verbose_check S R)
           = (if count_non_zero (drop (length S) R) = 0 then PASS else PARTIAL)"
proof -
  from assms have ne: "R \<noteq> S" "R \<noteq> []" by auto
  have afc: "afc_verdict (test_freq_offset_check S R)
           = (if count_non_zero (drop (length S) R) \<le> 5 then PASS else FAIL)"
    using assms(1) ne by (simp add: test_freq_offset_check_def Let_def)
  have vb: "verbose_verdict (test_with_verbose_check S R)
           = (if count_non_zero (drop (length S) R) = 0 then PASS else PARTIAL)"
    using assms(1) by (simp add: test_with_verbose_check_def Let_def)
  from afc vb show ?thesis by simp
qed

theorem afc_trailing_bytes_verdict_witness:
  "afc_verdict (test_freq_offset_check ''Test123'' (''Test123'' @ [CHR 0x01, CHR 0x00])) = PASS
   \<and> verbose_verdict (test_with_verbose_check ''Test123'' (''Test123'' @ [CHR 0x01, CHR 0x00])) = PARTIAL"
  using afc_trailing_bytes_verdict [of "''Test123''" "''Test123'' @ [CHR 0x01, CHR 0x00]"]
  by (simp add: count_non_zero_def)

text \<open>
  The verbose variant does not follow the 5-byte tolerance: one non-zero trailing
  byte already gives PARTIAL instead of PASS, and seven give PARTIAL instead of FAIL.
\<close>

theorem verbose_trailing_bytes_counterexample:
  "take (length ''Test123'') (''Test123'' @ [CHR 0x01]) = ''Test123''
   \<and> length ''Test123'' < length (''Test123'' @ [CHR 0x01])
   \<and> count_non_zero (drop (length ''Test123'') (''Test123'' @ [CHR 0x01])) = 1
   \<and> verbose_verdict (test_with_verbose_check ''Test123'' (''Test123'' @ [CHR 0x01])) = PARTIAL
   \<and> count_non_zero (drop (length ''Test123'') (''Test123'' @ ''garbage'')) = 7
   \<and> verbose_verdict (test_with_verbose_check ''Test123'' (''Test123'' @ ''garbage'')) = PARTIAL"
  by (simp add: test_with_verbose_check_def count_non_zero_def)

text \<open>
  Claim C4, as the code has it. When \<open>R\<close> does not start with \<open>S\<close> (so is not equal to
  it either), the matrix variant reports, for a non-empty \<open>R\<close>, the number of
  position-wise mismatches over the common prefix plus the shortfall
  \<open>max(0, len(S) - len(R))\<close> (\<open>length S - length R\<close> on naturals), and bytes received
  beyond \<open>len(S)\<close> add nothing. The verbose variant adds \<open>|len(R) - len(S)|\<close> instead,
  so every byte received beyond \<open>len(S)\<close> counts as one more difference. For disjoint
  \<open>S\<close> and \<open>R\<close> of equal non-zero length both report \<open>len(S)\<close>.
\<close>

theorem afc_byte_error_count:
  "(R \<noteq> [] \<and> take (length S) R \<noteq> S \<longrightarrow>
      test_freq_offset_check S R =
        Afc_fail_ber (card {i. i < min (length R) (length S) \<and> R ! i \<noteq> S ! i}
                        + (length S - length R))
                     (max (length S) 1))
   \<and> (take (length S) R \<noteq> S \<longrightarrow>
      test_with_verbose_check S R =
        Verbose_fail (card {i. i < min (length R) (length S) \<and> R ! i \<noteq> S ! i}
                        + (length S - length R) + (length R - length S)))
   \<and> (R \<noteq> [] \<and> length R = length S \<and> (\<forall>i < length S. R ! i \<noteq> S ! i) \<longrightarrow>
      test_freq_offset_check S R = Afc_fail_ber (length S) (length S)
      \<and> test_with_verbose_check S R = Verbose_fail (length S))"
proof -
  have ne: "R \<noteq> S" if "take (length S) R \<noteq> S"
    using that by auto
  have errs_afc: "nat (int (count_mismatches R S) + max 0 (int (length S) - int (length R)))
      = card {i. i < min (length R) (length S) \<and> R ! i \<noteq> S ! i} + (length S - length R)"
    unfolding count_mismatches_card by linarith
  have errs_vb: "nat (int (count_mismatches R S) + \<bar>int (length R) - int (length S)\<bar>)
      = card {i. i < min (length R) (length S) \<and> R ! i \<noteq> S ! i}
          + (length S - length R) + (length R - length S)"
    unfolding count_mismatches_card by linarith
  have afc: "test_freq_offset_check S R =
        Afc_fail_ber (card {i. i < min (length R) (length S) \<and> R ! i \<noteq> S ! i}
                        + (length S - length R))
                     (max (length S) 1)"
    if "R \<noteq> []" "take (length S) R \<noteq> S"
    using that ne [OF that(2)] errs_afc by (simp add: test_freq_offset_check_def Let_def)
  have vb: "test_with_verbose_check S R =
        Verbose_fail (card {i. i < min (length R) (length S) \<and> R ! i \<noteq> S ! i}
                        + (length S - length R) + (length R - length S))"
    if "take (length S) R \<noteq> S"
    using that ne [OF that] errs_vb by (simp add: test_with_verbose_check_def Let_def)
  have disj: "test_freq_offset_check S R = Afc_fail_ber (length S) (length S)
      \<and> test_with_verbose_check S R = Verbose_fail (length S)"
    if "R \<noteq> []" "length R = length S" "\<forall>i < length S. R ! i \<noteq> S ! i"
  proof -
    from that have pos: "0 < length S" by auto
    with that(3) have "R ! 0 \<noteq> S ! 0" by blast
    then have "R \<noteq> S" by auto
    with that(2) have np: "take (length S) R \<noteq> S" by simp
    from that(2,3) have "{i. i < min (length R) (length S) \<and> R ! i \<noteq> S ! i} = {..<length S}"
      by auto
    then have c: "card {i. i < min (length R) (length S) \<and> R ! i \<noteq> S ! i} = length S"
      by simp
    from pos have m: "max (length S) 1 = length S" by (cases S) simp_all
    show ?thesis using afc [OF that(1) np] vb [OF np] c m that(2) by simp
  qed
  from afc vb disj show ?thesis by blast
qed

theorem afc_byte_error_count_witness:
  "test_freq_offset_check ''Test123'' ''Xest123ab'' = Afc_fail_ber 1 7
   \<and> test_with_verbose_check ''Test123'' ''Xest123ab'' = Verbose_fail 3
   \<and> test_freq_offset_check ''ab'' ''cd'' = Afc_fail_ber 2 2
   \<and> test_with_verbose_check ''ab'' ''cd'' = Verbose_fail 2"
  using afc_byte_error_count [of "''Xest123ab''" "''Test123''", folded count_mismatches_card]
        afc_byte_error_count [of "''cd''" "''ab''", folded count_mismatches_card]
  by (simp add: count_mismatches_def)

text \<open>
  In the verbose variant two bytes received beyond the message raise the count from
  the one mismatch to three.
\<close>

theorem verbose_byte_error_count_counterexample:
  "''Xest123ab'' \<noteq> ''Test123''
   \<and> take (length ''Test123'') ''Xest123ab'' \<noteq> ''Test123''
   \<and> count_mismatches ''Xest123ab'' ''Test123'' = 1
   \<and> max 0 (int (length ''Test123'') - int (length ''Xest123ab'')) = 0
   \<and> test_with_verbose_check ''Test123'' ''Xest123ab'' = Verbose_fail 3"
  by (simp add: test_with_verbose_check_def count_mismatches_def)

subsection \<open>Verdict of the AWGN test\<close>

text \<open>
  Claim C10. When no byte is received the verdict is FAIL and the reported error count
  is 0: whenever the received bytes do not start with the message, the count is the
  number of mismatching positions among those present in both sequences, and missing
  bytes add nothing.
\<close>

theorem awgn_no_data_zero_errors:
  "(S \<noteq> [] \<longrightarrow> test_awgn_check S [] = Awgn_fail 0 0
                \<and> awgn_verdict (test_awgn_check S []) = FAIL)
   \<and> test_awgn_check awgn_test_data [] = Awgn_fail 0 0
   \<and> (take (length S) R \<noteq> S \<longrightarrow>
        test_awgn_check S R =
          Awgn_fail (card {i. i < min (length R) (length S) \<and> R ! i \<noteq> S ! i})
                    (min (length R) (length S)))"
  by (simp add: test_awgn_check_def count_mismatches_card awgn_test_data_def)

theorem awgn_no_data_zero_errors_witness:
  "test_awgn_check ''Test'' [] = Awgn_fail 0 0
   \<and> awgn_verdict (test_awgn_check ''Test'' []) = FAIL
   \<and> test_awgn_check ''Test'' ''Te'' = Awgn_fail 0 2"
  using awgn_no_data_zero_errors [of "''Test''" "''Te''", folded count_mismatches_card]
  by (simp add: count_mismatches_def)

subsection \<open>Verdict of the reference suite\<close>

text \<open>\<open>str_contains\<close> is the substring test: some text before, the pattern, some text after.\<close>

lemma take_length_eq_iff_prefix: "take (length sub) s = sub \<longleftrightarrow> (\<exists>q. s = sub @ q)"
proof
  assume "take (length sub) s = sub"
  then have "s = sub @ drop (length sub) s"
    by (metis append_take_drop_id)
  then show "\<exists>q. s = sub @ q" ..
next
  assume "\<exists>q. s = sub @ q"
  then show "take (length sub) s = sub" by auto
qed

lemma str_contains_iff: "str_contains sub s \<longleftrightarrow> (\<exists>p q. s = p @ sub @ q)"
proof (induction s)
  case Nil
  then show ?case by auto
next
  case (Cons c cs)
  show ?case
  proof
    assume "str_contains sub (c # cs)"
    then consider "take (length sub) (c # cs) = sub" | "str_contains sub cs"
      by auto
    then show "\<exists>p q. c # cs = p @ sub @ q"
    proof cases
      case 1
      then obtain q where "c # cs = sub @ q"
        using take_length_eq_iff_prefix [of sub "c # cs"] by blast
      then have "c # cs = [] @ sub @ q" by simp
      then show ?thesis by blast
    next
      case 2
      with Cons.IH obtain p q where "cs = p @ sub @ q" by blast
      then have "c # cs = (c # p) @ sub @ q" by simp
      then show ?thesis by blast
    qed
  next
    assume "\<exists>p q. c # cs = p @ sub @ q"
    then obtain p q where pq: "c # cs = p @ sub @ q" by blast
    show "str_contains sub (c # cs)"
    proof (cases p)
      case Nil
      with pq have "take (length sub) (c # cs) = sub"
        using take_length_eq_iff_prefix [of sub "c # cs"] by auto
      then show ?thesis by simp
    next
      case (Cons a p')
      with pq have "cs = p' @ sub @ q" by simp
      with Cons.IH have "str_contains sub cs" by blast
      then show ?thesis by simp
    qed
  qed
qed

text \<open>
  Claim C6. A mode's verdict is PASS if and only if the decoded text is non-empty and
  contains ``QUICK BROWN FOX''; an empty decode and a decode without that substring
  give FAIL.
\<close>

theorem test_mode_pass_iff:
  "(test_mode_verdict decoded = PASS \<longleftrightarrow>
      decoded \<noteq> [] \<and> (\<exists>p q. decoded = p @ py_str ''QUICK BROWN FOX'' @ q))
   \<and> (test_mode_verdict decoded = FAIL \<longleftrightarrow>
      decoded = [] \<or> (\<nexists>p q. decoded = p @ py_str ''QUICK BROWN FOX'' @ q))"
proof -
  have the: "py_str ''THE QUICK BROWN FOX'' = py_str ''THE '' @ py_str ''QUICK BROWN FOX''"
    by (simp add: py_str_def)
  have sub: "str_contains (py_str ''QUICK BROWN FOX'') decoded"
    if "str_contains (py_str ''THE QUICK BROWN FOX'') decoded"
  proof -
    from that obtain p q where "decoded = p @ py_str ''THE QUICK BROWN FOX'' @ q"
      unfolding str_contains_iff by blast
    then have "decoded = (p @ py_str ''THE '') @ py_str ''QUICK BROWN FOX'' @ q"
      unfolding the by simp
    then show ?thesis unfolding str_contains_iff by blast
  qed
  have s: "test_mode_success decoded \<longleftrightarrow>
      decoded \<noteq> [] \<and> (\<exists>p q. decoded = p @ py_str ''QUICK BROWN FOX'' @ q)"
    unfolding test_mode_success_def Let_def
    using sub str_contains_iff [of "py_str ''QUICK BROWN FOX''" decoded] by auto
  show ?thesis
    unfolding test_mode_verdict_def s by auto
qed

theorem test_mode_pass_iff_witness:
  "test_mode_verdict (py_str ''THE QUICK BROWN FOX JUMPS'') = PASS
   \<and> test_mode_verdict (py_str ''THE QUICK BROWN DOG'') = FAIL
   \<and> test_mode_verdict [] = FAIL"
proof -
  have a: "py_str ''THE QUICK BROWN FOX JUMPS''
             = py_str ''THE '' @ py_str ''QUICK BROWN FOX'' @ py_str '' JUMPS''"
    by (simp add: py_str_def)
  have b: "test_mode_verdict (py_str ''THE QUICK BROWN DOG'') = FAIL"
    by (simp add: test_mode_verdict_def test_mode_success_def py_str_def)
  from a have "test_mode_verdict (py_str ''THE QUICK BROWN FOX JUMPS'') = PASS"
    using test_mode_pass_iff [of "py_str ''THE QUICK BROWN FOX JUMPS''"]
    by (metis append_is_Nil_conv list.distinct(1) list.map_disc_iff py_str_def)
  moreover have "test_mode_verdict [] = FAIL"
    using test_mode_pass_iff [of "[]"] by simp
  ultimately show ?thesis using b by simp
qed

subsection \<open>The RMS flag of the comparison\<close>

text \<open>
  Claim C3, as the code has it. With a positive RMS in the second report, the ``large RMS
  difference'' flag is raised exactly for the ratios strictly below 0.5 or strictly
  above 2.0; the ratios 0.5 and 2.0 themselves, like everything between them, do not
  raise it.
\<close>

theorem compare_rms_flag_strict:
  "rms b > 0 \<Longrightarrow>
     (Large_RMS_difference \<in> set (compare a b)) = (rms a / rms b < 0.5 \<or> rms a / rms b > 2.0)"
  by (simp add: compare_def Let_def)

theorem compare_rms_flag_strict_witness:
  "Large_RMS_difference \<in> set (compare \<lparr>rms = 5, peak_freq_fft = 1800, dc_offset = 0\<rparr>
                                        \<lparr>rms = 2, peak_freq_fft = 1800, dc_offset = 0\<rparr>)
   \<and> Large_RMS_difference \<notin> set (compare \<lparr>rms = 3, peak_freq_fft = 1800, dc_offset = 0\<rparr>
                                        \<lparr>rms = 2, peak_freq_fft = 1800, dc_offset = 0\<rparr>)"
  using compare_rms_flag_strict [of "\<lparr>rms = 2, peak_freq_fft = 1800, dc_offset = 0\<rparr>"
                                    "\<lparr>rms = 5, peak_freq_fft = 1800, dc_offset = 0\<rparr>"]
        compare_rms_flag_strict [of "\<lparr>rms = 2, peak_freq_fft = 1800, dc_offset = 0\<rparr>"
                                    "\<lparr>rms = 3, peak_freq_fft = 1800, dc_offset = 0\<rparr>"]
  by simp

text \<open>The flag is not raised at the ratio 0.5 (RMS 1 against 2) nor at 2.0 (2 against 1).\<close>

theorem compare_rms_boundary_counterexample:
  "rms \<lparr>rms = 1, peak_freq_fft = 1800, dc_offset = 0\<rparr>
     / rms \<lparr>rms = 2, peak_freq_fft = 1800, dc_offset = 0\<rparr> = 0.5
   \<and> Large_RMS_difference \<notin> set (compare \<lparr>rms = 1, peak_freq_fft = 1800, dc_offset = 0\<rparr>
                                           \<lparr>rms = 2, peak_freq_fft = 1800, dc_offset = 0\<rparr>)
   \<and> rms \<lparr>rms = 2, peak_freq_fft = 1800, dc_offset = 0\<rparr>
     / rms \<lparr>rms = 1, peak_freq_fft = 1800, dc_offset = 0\<rparr> = 2.0
   \<and> Large_RMS_difference \<notin> set (compare \<lparr>rms = 2, peak_freq_fft = 1800, dc_offset = 0\<rparr>
                                           \<lparr>rms = 1, peak_freq_fft = 1800, dc_offset = 0\<rparr>)"
  by (simp add: compare_def)

subsection \<open>Inputs the analyzer rejects\<close>

lemma struct_unpack_h_odd:
  "odd (length data) \<Longrightarrow> struct_unpack_h (length data div 2) data = Inl StructError"
proof -
  assume "odd (length data)"
  then have "length data \<noteq> 2 * (length data div 2)" by presburger
  then show ?thesis by (simp add: struct_unpack_h_def)
qed

text \<open>
  Claim C9. \<^verbatim>\<open>analyze_pcm\<close> returns a report only for inputs of even, non-zero byte
  length: an input of odd length raises the unpacking error (the last byte is not
  dropped), and the empty input fails in the report computation.
\<close>

theorem analyze_pcm_needs_even_nonempty:
  "(odd (length data) \<longrightarrow> analyze_pcm data = Inl StructError)
   \<and> analyze_pcm [] = Inl ValueError
   \<and> (analyze_pcm data = Inr r \<longrightarrow> even (length data) \<and> data \<noteq> [])"
proof -
  have a: "analyze_pcm data = Inl StructError" if "odd (length data)"
    using struct_unpack_h_odd [OF that] by (simp add: analyze_pcm_def)
  have b: "analyze_pcm [] = Inl ValueError"
    by (simp add: analyze_pcm_def struct_unpack_h_def)
  have c: "even (length data) \<and> data \<noteq> []" if "analyze_pcm data = Inr r"
  proof -
    have "even (length data)"
    proof (rule ccontr)
      assume "odd (length data)"
      from a [OF this] that show False by simp
    qed
    moreover have "data \<noteq> []"
      using that b by auto
    ultimately show ?thesis by simp
  qed
  from a b c show ?thesis by blast
qed

theorem analyze_pcm_needs_even_nonempty_witness:
  "analyze_pcm ''abc'' = Inl StructError
   \<and> analyze_pcm [] = Inl ValueError
   \<and> (\<exists>r. analyze_pcm (replicate 40 (CHR 0x01)) = Inr r)
   \<and> even (length (replicate 40 (CHR 0x01))) \<and> replicate 40 (CHR 0x01) \<noteq> []"
proof -
  have r: "replicate 40 (CHR 0x01) = replicate 20 (CHR 0x01) @ replicate 20 (CHR 0x01)"
    by (simp flip: replicate_add)
  have u: "unpack_pairs (replicate (2 * n) (CHR 0x01)) = replicate n 257" for n
    by (induction n) (simp_all add: le_int16_def)
  have "unpack_pairs (replicate 40 (CHR 0x01)) = replicate 20 257"
    using u [of 20] by simp
  then have ex: "\<exists>r. analyze_pcm (replicate 40 (CHR 0x01)) = Inr r"
    by (simp add: analyze_pcm_def struct_unpack_h_def Let_def)
  then obtain r where "analyze_pcm (replicate 40 (CHR 0x01)) = Inr r" ..
  with analyze_pcm_needs_even_nonempty [of "replicate 40 (CHR 0x01)" r]
       analyze_pcm_needs_even_nonempty [of "''abc''"] ex
  show ?thesis by simp
qed

subsection \<open>The capture filename when the marker is split\<close>

text \<open>
  Claim C1 asks that the path after \<^verbatim>\<open>FILE:\<close> is extracted however the stream is cut
  into chunks. The loop looks for the marker in each chunk alone, although it keeps the
  accumulated \<^verbatim>\<open>response\<close> and searches that for \<^verbatim>\<open>OK:SENDBUFFER\<close>. The same
  stream gives the path when it arrives in one chunk and no filename when the marker is
  cut after \<^verbatim>\<open>FI\<close>.
\<close>

theorem wait_for_pcm_file_split_marker:
  "wait_for_pcm_file [Chunk ''FILE:/tmp/tx.pcm\<newline>OK:SENDBUFFER\<newline>'']
     = Inr (Some ''/tmp/tx.pcm'')
   \<and> wait_for_pcm_file [Chunk ''FI'', Chunk ''LE:/tmp/tx.pcm\<newline>OK:SENDBUFFER\<newline>'']
     = Inr None"
  by (simp add: wait_for_pcm_file_def extract_pcm_file_def decode_chunk_def str_strip_def
      first_line_def py_isspace_def)

subsection \<open>Rounding to a double\<close>

text \<open>
  \<open>fl_eqI\<close> evaluates a rounding from the binary exponent \<open>k\<close> and the significand
  \<open>m\<close> of the result; \<open>fl_error\<close> is the half-ulp error bound; integers below \<open>2^53\<close>
  are doubles.
\<close>

lemma np_round_nearest:
  assumes "\<bar>x - of_int j\<bar> < 1 / 2"
  shows "np_round x = j"
proof (cases "of_int j \<le> x")
  case True
  with assms have "\<lfloor>x\<rfloor> = j" by (simp add: floor_eq_iff abs_if split: if_splits)
  with assms True show ?thesis by (simp add: np_round_def Let_def)
next
  case False
  with assms have f: "\<lfloor>x\<rfloor> = j - 1"
    by (intro floor_unique) (simp_all add: abs_if split: if_splits)
  from False assms have "x - of_int (j - 1) > 1 / 2" by (simp add: abs_if split: if_splits)
  with f show ?thesis by (simp add: np_round_def Let_def)
qed

lemma np_round_of_int: "np_round (of_int j) = j"
  by (rule np_round_nearest) simp

lemma np_round_error: "\<bar>of_int (np_round x) - x\<bar> \<le> 1 / 2"
proof -
  define f where "f = \<lfloor>x\<rfloor>"
  have b: "of_int f \<le> x" "x < of_int f + 1"
    using floor_correct [of x] by (simp_all add: f_def)
  consider "x - of_int f < 1 / 2" | "x - of_int f > 1 / 2" | "x - of_int f = 1 / 2"
    by linarith
  then show ?thesis
  proof cases
    case 1
    then have "np_round x = f" by (simp add: np_round_def Let_def f_def)
    with 1 b show ?thesis by simp
  next
    case 2
    then have "np_round x = f + 1" by (simp add: np_round_def Let_def f_def)
    with 2 b show ?thesis by simp
  next
    case 3
    then have "np_round x = f \<or> np_round x = f + 1"
      by (simp add: np_round_def Let_def f_def)
    with 3 show ?thesis by auto
  qed
qed

lemma fl_eqI:
  assumes "2 powr of_int k \<le> \<bar>x\<bar>" and "\<bar>x\<bar> < 2 powr (of_int k + 1)"
    and "\<bar>x / 2 powr of_int (k - 52) - of_int m\<bar> < 1 / 2"
  shows "fl x = of_int m * 2 powr of_int (k - 52)"
proof -
  have "0 < (2::real) powr of_int k" by simp
  with assms(1) have pos: "0 < \<bar>x\<bar>" by linarith
  then have nz: "x \<noteq> 0" by simp
  from pos assms(1,2) have "\<lfloor>log 2 \<bar>x\<bar>\<rfloor> = k"
    by (simp add: floor_log_eq_powr_iff)
  with nz assms(3) show ?thesis
    by (simp add: fl_def Let_def np_round_nearest)
qed

lemma fl_error:
  assumes "x \<noteq> 0"
  shows "\<bar>fl x - x\<bar> \<le> 2 powr of_int (\<lfloor>log 2 \<bar>x\<bar>\<rfloor> - 53)"
proof -
  define e where "e = \<lfloor>log 2 \<bar>x\<bar>\<rfloor>"
  define ulp :: real where "ulp = 2 powr of_int (e - 52)"
  have up: "0 < ulp" by (simp add: ulp_def)
  have f: "fl x = of_int (np_round (x / ulp)) * ulp"
    using assms by (simp add: fl_def Let_def e_def ulp_def)
  have "\<bar>of_int (np_round (x / ulp)) - x / ulp\<bar> \<le> 1 / 2"
    by (rule np_round_error)
  then have "\<bar>of_int (np_round (x / ulp)) - x / ulp\<bar> * ulp \<le> 1 / 2 * ulp"
    using up by (simp add: mult_right_mono)
  moreover have "\<bar>of_int (np_round (x / ulp)) - x / ulp\<bar> * ulp = \<bar>fl x - x\<bar>"
  proof -
    have "\<bar>of_int (np_round (x / ulp)) - x / ulp\<bar> * ulp
        = \<bar>(of_int (np_round (x / ulp)) - x / ulp) * ulp\<bar>"
      using up by (simp add: abs_mult)
    also have "(of_int (np_round (x / ulp)) - x / ulp) * ulp = fl x - x"
      using up by (simp add: f left_diff_distrib)
    finally show ?thesis .
  qed
  moreover have "1 / 2 * ulp = 2 powr of_int (e - 53)"
  proof -
    have "of_int (e - 53) = of_int (e - 52) + (- 1 :: real)" by simp
    then have "(2::real) powr of_int (e - 53) = 2 powr of_int (e - 52) * 2 powr (- 1)"
      by (simp only: powr_add)
    then show ?thesis by (simp add: ulp_def powr_minus)
  qed
  ultimately show ?thesis unfolding e_def by simp
qed

lemma binade:
  assumes "0 < x"
  shows "2 powr of_int \<lfloor>log 2 x\<rfloor> \<le> x" and "x < 2 powr (of_int \<lfloor>log 2 x\<rfloor> + 1)"
  using floor_log_eq_powr_iff [of x 2 "\<lfloor>log 2 x\<rfloor>"] assms by simp_all

lemma np_round_minus: "np_round (- x) = - np_round x"
proof (cases "\<bar>x - of_int (np_round x)\<bar> < 1 / 2")
  case True
  then have "\<bar>- x - of_int (- np_round x)\<bar> < 1 / 2"
    by (simp add: abs_minus_commute)
  then show ?thesis by (rule np_round_nearest)
next
  case False
  define f where "f = \<lfloor>x\<rfloor>"
  have b: "of_int f \<le> x" "x < of_int f + 1"
    using floor_correct [of x] by (simp_all add: f_def)
  have tie: "x - of_int f = 1 / 2"
  proof (rule ccontr)
    assume "x - of_int f \<noteq> 1 / 2"
    then consider "x - of_int f < 1 / 2" | "x - of_int f > 1 / 2" by linarith
    then have "\<bar>x - of_int (np_round x)\<bar> < 1 / 2"
    proof cases
      case 1
      then have "np_round x = f" by (simp add: np_round_def Let_def f_def)
      with 1 b show ?thesis by simp
    next
      case 2
      then have "np_round x = f + 1" by (simp add: np_round_def Let_def f_def)
      with 2 b show ?thesis by simp
    qed
    with False show False by simp
  qed
  then have r: "np_round x = (if even f then f else f + 1)"
    by (simp add: np_round_def Let_def f_def)
  from tie have "\<lfloor>- x\<rfloor> = - f - 1"
    by (intro floor_unique) simp_all
  moreover from tie have "- x - of_int (- f - 1) = 1 / 2" by simp
  ultimately have "np_round (- x) = (if even (- f - 1) then - f - 1 else - f - 1 + 1)"
    by (simp add: np_round_def Let_def)
  with r show ?thesis by simp
qed

lemma fl_minus: "fl (- x) = - fl x"
  by (simp add: fl_def Let_def np_round_minus)

lemma py_int_minus: "py_int (- x) = - py_int x"
  by (auto simp: py_int_def ceiling_def)

lemma fl_of_int_exact:
  assumes "0 < n" and "n < 2 ^ 53"
  shows "fl (of_int n) = of_int n"
proof -
  define e where "e = \<lfloor>log 2 (of_int n :: real)\<rfloor>"
  from assms(1) have pos: "(0::real) < of_int n" by simp
  have lo: "2 powr of_int e \<le> (of_int n :: real)"
    unfolding e_def using binade(1) [OF pos] .
  have p53: "(2::real) ^ 53 = 2 powr 53" by simp
  have "(of_int n :: real) < 2 ^ 53"
    using assms(2) by (metis of_int_less_numeral_power_cancel_iff)
  with lo have lt: "(2::real) powr of_int e < 2 powr 53"
    unfolding p53 by linarith
  have "(of_int e :: real) < 53"
    by (rule powr_less_cancel_iff [THEN iffD1, of 2]) (simp, rule lt)
  then have "e < 53" by simp
  then have le: "e - 52 \<le> 0" by simp
  define k where "k = nat (52 - e)"
  have "(of_int (e - 52) :: real) = - real k"
    using le by (simp add: k_def)
  then have "(2::real) powr of_int (e - 52) = 2 powr (- real k)"
    by (simp only:)
  also have "\<dots> = 1 / 2 ^ k"
    by (simp add: powr_minus powr_realpow inverse_eq_divide)
  finally have ulp: "(2::real) powr of_int (e - 52) = 1 / 2 ^ k" .
  have "of_int n / (2 powr of_int (e - 52)) = (of_int (n * 2 ^ k) :: real)"
    unfolding ulp by simp
  then have "np_round (of_int n / 2 powr of_int (e - 52)) = n * 2 ^ k"
    by (simp only: np_round_of_int)
  moreover have "\<bar>of_int n :: real\<bar> = of_int n" using pos by simp
  ultimately have "fl (of_int n) = of_int (n * 2 ^ k) * 2 powr of_int (e - 52)"
    using pos by (simp add: fl_def Let_def e_def)
  also have "\<dots> = of_int n" unfolding ulp by simp
  finally show ?thesis .
qed

subsection \<open>Samples per symbol\<close>

text \<open>
  For integers below \<open>2^53\<close> the rounded quotient lies in the same unit interval as the
  exact one: the exact quotient is at least \<open>1 / B\<close> away from the next integer, and the
  rounding error is smaller than that.
\<close>

lemma fl_quotient_bounds:
  fixes S B :: int
  assumes "0 \<le> S" and "0 < B" and "S < 2 ^ 53" and "B < 2 ^ 53"
  shows "of_int (S div B) \<le> fl (of_int S / of_int B)
       \<and> fl (of_int S / of_int B) < of_int (S div B) + 1"
proof (cases "S = 0")
  case True
  then show ?thesis by (simp add: fl_def)
next
  case False
  with assms(1) have Spos: "0 < S" by simp
  define q :: real where "q = of_int S / of_int B"
  define n where "n = S div B"
  define r where "r = S mod B"
  define e where "e = \<lfloor>log 2 q\<rfloor>"
  have Bpos: "(0::real) < of_int B" using assms(2) by simp
  have qpos: "0 < q" using Spos Bpos by (simp add: q_def)
  have S: "S = n * B + r" and r: "0 \<le> r" "r < B"
    using assms(2) by (simp_all add: n_def r_def)
  have qn: "q = of_int n + of_int r / of_int B"
  proof -
    have "(of_int S :: real) = of_int n * of_int B + of_int r"
      using S by (metis of_int_add of_int_mult)
    then show ?thesis using Bpos by (simp add: q_def field_simps)
  qed
  have lo: "2 powr of_int e \<le> q"
    unfolding e_def using binade(1) [OF qpos] .
  have err: "\<bar>fl q - q\<bar> \<le> 2 powr of_int (e - 53)"
    using fl_error [of q] qpos by (simp add: e_def)
  have "(2::real) powr of_int (e - 53) = 2 powr of_int e / 2 powr 53"
    by (simp add: powr_diff del: powr_numeral)
  then have e53: "(2::real) powr of_int (e - 53) = 2 powr of_int e / 2 ^ 53"
    by simp
  have "of_int B * 2 powr of_int e \<le> of_int B * q"
    using lo Bpos by (simp add: mult_left_mono)
  also have "of_int B * q = of_int S" using Bpos by (simp add: q_def)
  also have "(of_int S :: real) < 2 ^ 53"
    using assms(3) by (metis of_int_less_numeral_power_cancel_iff)
  finally have "of_int B * 2 powr of_int e < (2::real) ^ 53" .
  then have "2 powr of_int e / 2 ^ 53 < 1 / (of_int B :: real)"
    using Bpos by (simp add: field_simps)
  with err e53 have small: "\<bar>fl q - q\<bar> < 1 / of_int B" by linarith
  from r(2) have "r + 1 \<le> B" by simp
  then have "of_int (r + 1) \<le> (of_int B :: real)" by (simp only: of_int_le_iff)
  then have "of_int r + 1 \<le> (of_int B :: real)" by simp
  then have "of_int r / of_int B + 1 / of_int B \<le> (1::real)"
    using Bpos by (simp add: field_simps)
  with small qn have up: "fl q < of_int n + 1" by linarith
  have low: "of_int n \<le> fl q"
  proof (cases "r = 0")
    case True
    with qn have qi: "q = of_int n" by simp
    with qpos have "0 < n" by simp
    moreover have "n \<le> S"
    proof -
      have "1 \<le> B" using assms(2) by simp
      with \<open>0 < n\<close> have "n * 1 \<le> n * B" by (intro mult_left_mono) simp_all
      with S True show ?thesis by simp
    qed
    then have "n < 2 ^ 53" using assms(3) by simp
    ultimately have "fl (of_int n) = of_int n" by (rule fl_of_int_exact)
    then show ?thesis by (simp add: qi)
  next
    case False
    with r(1) have "1 \<le> r" by linarith
    then have "(1::real) \<le> of_int r" by simp
    then have "1 / of_int B \<le> (of_int r / of_int B :: real)"
      using Bpos by (simp add: divide_right_mono)
    with small qn show ?thesis by linarith
  qed
  from low up show ?thesis by (simp add: q_def n_def)
qed

lemma py_int_bounds:
  "\<bar>of_int (py_int x)\<bar> \<le> \<bar>x\<bar> \<and> \<bar>x - of_int (py_int x)\<bar> < 1"
proof (cases "x \<ge> 0")
  case True
  then have p: "py_int x = \<lfloor>x\<rfloor>" by (simp add: py_int_def)
  have "0 \<le> \<lfloor>x\<rfloor>" using True by simp
  then have "(0::real) \<le> of_int \<lfloor>x\<rfloor>" by simp
  moreover have "of_int \<lfloor>x\<rfloor> \<le> x" "x < of_int \<lfloor>x\<rfloor> + 1"
    using floor_correct [of x] by simp_all
  ultimately show ?thesis unfolding p using True by linarith
next
  case False
  then have p: "py_int x = \<lceil>x\<rceil>" by (simp add: py_int_def)
  have "\<lceil>x\<rceil> \<le> 0" using False by (simp add: ceiling_le_iff)
  then have "of_int \<lceil>x\<rceil> \<le> (0::real)" by simp
  moreover have "x \<le> of_int \<lceil>x\<rceil>" "of_int \<lceil>x\<rceil> - 1 < x"
    using ceiling_correct [of x] by simp_all
  ultimately show ?thesis unfolding p using False by linarith
qed

lemma py_int_fl_quotient_nonneg:
  fixes S B :: int
  assumes "0 \<le> S" and "0 < B" and "S < 2 ^ 53" and "B < 2 ^ 53"
  shows "py_int (fl (of_int S / of_int B)) = S div B"
    and "py_int (of_int S / of_int B) = S div B"
    and "\<bar>fl (of_int S / of_int B)\<bar> < 2 ^ 1024"
proof -
  note b = fl_quotient_bounds [OF assms]
  have n0: "0 \<le> S div B" using assms(1,2) by (simp add: pos_imp_zdiv_nonneg_iff)
  then have "(0::real) \<le> of_int (S div B)" by simp
  with b have f0: "0 \<le> fl (of_int S / of_int B)" by linarith
  from b have "\<lfloor>fl (of_int S / of_int B)\<rfloor> = S div B"
    by (intro floor_unique) simp_all
  with f0 show "py_int (fl (of_int S / of_int B)) = S div B"
    by (simp add: py_int_def)
  have "(0::real) \<le> of_int S / of_int B" using assms(1,2) by simp
  then show "py_int (of_int S / of_int B) = S div B"
    by (simp add: py_int_def floor_divide_of_int_eq)
  have "S div B \<le> S"
  proof (cases "S = 0")
    case True
    then show ?thesis by simp
  next
    case False
    with assms(1) have "0 < S" by simp
    then show ?thesis by (rule int_div_le_self)
  qed
  with assms(3) have "S div B + 1 \<le> 2 ^ 53" by simp
  then have "of_int (S div B + 1) \<le> (of_int (2 ^ 53) :: real)"
    by (simp only: of_int_le_iff)
  then have "of_int (S div B) + 1 \<le> (2 ^ 53 :: real)" by simp
  also have "(2 ^ 53 :: real) \<le> 2 ^ 1024" by (rule power_increasing) simp_all
  finally show "\<bar>fl (of_int S / of_int B)\<bar> < 2 ^ 1024"
    using b f0 by linarith
qed

lemma py_int_fl_quotient:
  fixes s b :: int
  assumes "b \<noteq> 0" and "\<bar>s\<bar> < 2 ^ 53" and "\<bar>b\<bar> < 2 ^ 53"
  shows "py_int (fl (of_int s / of_int b)) = py_int (of_int s / of_int b)
       \<and> \<bar>fl (of_int s / of_int b)\<bar> < 2 ^ 1024"
proof -
  have pos: "0 \<le> \<bar>s\<bar>" "0 < \<bar>b\<bar>" using assms(1) by simp_all
  note n = py_int_fl_quotient_nonneg [OF pos assms(2,3)]
  define q :: real where "q = of_int \<bar>s\<bar> / of_int \<bar>b\<bar>"
  have "of_int s / of_int b = q \<or> of_int s / of_int b = - q"
    unfolding q_def by (auto simp: abs_if)
  then show ?thesis
  proof
    assume "of_int s / of_int b = q"
    with n show ?thesis by (simp add: q_def)
  next
    assume "of_int s / of_int b = - q"
    with n show ?thesis by (simp add: q_def fl_minus py_int_minus)
  qed
qed

text \<open>
  Claim C8, as the code has it. For a non-zero baud rate and rates of magnitude below
  \<open>2^53\<close>, the number of samples per symbol is the quotient
  \<open>sample_rate / baud_rate\<close> with its fractional part dropped (rounded toward zero;
  \<open>sample_rate div baud_rate\<close> for positive rates), not the nearest integer. At 48000 Hz
  and 2400 baud it is 20.
\<close>

theorem samples_per_symbol_truncates:
  assumes "baud_rate \<noteq> 0" and "\<bar>sample_rate\<bar> < 2 ^ 53" and "\<bar>baud_rate\<bar> < 2 ^ 53"
  shows "samples_per_symbol sample_rate baud_rate
           = Inr (py_int (of_int sample_rate / of_int baud_rate))
       \<and> \<bar>of_int (py_int (of_int sample_rate / of_int baud_rate))\<bar>
           \<le> \<bar>of_int sample_rate / of_int baud_rate :: real\<bar>
       \<and> \<bar>of_int sample_rate / of_int baud_rate
            - of_int (py_int (of_int sample_rate / of_int baud_rate)) :: real\<bar> < 1
       \<and> (0 \<le> sample_rate \<and> 0 < baud_rate \<longrightarrow>
            samples_per_symbol sample_rate baud_rate = Inr (sample_rate div baud_rate))
       \<and> samples_per_symbol 48000 2400 = Inr 20"
proof -
  note q = py_int_fl_quotient [OF assms]
  have a: "samples_per_symbol sample_rate baud_rate
           = Inr (py_int (of_int sample_rate / of_int baud_rate))"
    using assms(1) q by (simp add: samples_per_symbol_def Let_def)
  have b: "samples_per_symbol sample_rate baud_rate = Inr (sample_rate div baud_rate)"
    if "0 \<le> sample_rate \<and> 0 < baud_rate"
  proof -
    from that have "(0::real) \<le> of_int sample_rate / of_int baud_rate" by simp
    then have "py_int (of_int sample_rate / of_int baud_rate) = sample_rate div baud_rate"
      by (simp add: py_int_def floor_divide_of_int_eq)
    with a show ?thesis by simp
  qed
  have "py_int (fl (of_int 48000 / of_int 2400)) = 48000 div 2400"
    by (rule py_int_fl_quotient_nonneg) simp_all
  moreover have "\<bar>fl (of_int 48000 / of_int 2400)\<bar> < 2 ^ 1024"
    by (rule py_int_fl_quotient_nonneg) simp_all
  ultimately have c: "samples_per_symbol 48000 2400 = Inr 20"
    by (simp add: samples_per_symbol_def Let_def)
  from a b c py_int_bounds [of "of_int sample_rate / of_int baud_rate"] show ?thesis
    by blast
qed

theorem samples_per_symbol_truncates_witness:
  "samples_per_symbol 48000 2400 = Inr 20 \<and> samples_per_symbol 48000 1800 = Inr 26"
proof -
  have "samples_per_symbol 48000 2400 = Inr (48000 div 2400)"
    using samples_per_symbol_truncates [of 2400 48000] by (simp add: py_int_def)
  moreover have "samples_per_symbol 48000 1800 = Inr (48000 div 1800)"
    using samples_per_symbol_truncates [of 1800 48000] by (simp add: py_int_def)
  ultimately show ?thesis by simp
qed

text \<open>
  At 48000 Hz and 1800 baud the quotient is 26.67: the decoder uses 26, the nearest
  integer is 27.
\<close>

theorem samples_per_symbol_round_counterexample:
  "samples_per_symbol 48000 1800 = Inr 26
   \<and> round (of_int 48000 / of_int 1800 :: real) = 27
   \<and> \<not> \<bar>of_int 48000 / of_int 1800 - of_int 26 :: real\<bar> \<le> 1 / 2"
proof -
  have "py_int (fl (of_int 48000 / of_int 1800)) = 48000 div 1800"
    by (rule py_int_fl_quotient_nonneg) simp_all
  moreover have "\<bar>fl (of_int 48000 / of_int 1800)\<bar> < 2 ^ 1024"
    by (rule py_int_fl_quotient_nonneg) simp_all
  ultimately have a: "samples_per_symbol 48000 1800 = Inr 26"
    by (simp add: samples_per_symbol_def Let_def)
  have b: "round (of_int 48000 / of_int 1800 :: real) = 27"
    by (rule round_unique) simp_all
  have c: "\<not> \<bar>of_int 48000 / of_int 1800 - of_int 26 :: real\<bar> \<le> 1 / 2"
    by simp
  from a b c show ?thesis by blast
qed

subsection \<open>The reported spectral peaks\<close>

text \<open>
  The bin frequencies of a 4800-sample capture: \<^verbatim>\<open>1/48000\<close> rounds to
  \<open>6148914691236517 / 2^68\<close>, 4800 times that rounds to \<open>7205759403792793 / 2^56\<close>
  (the double below 0.1), whose reciprocal rounds to 10, so bin \<open>i\<close> lies at exactly
  \<open>10 i\<close> Hz.
\<close>

lemma fl_1_48000: "fl (1 / 48000) = 6148914691236517 / 295147905179352825856"
  using fl_eqI [of "- 16" "1 / 48000" 6148914691236517]
  by (simp add: powr_neg_numeral)

lemma fl_4800_d:
  "fl (4800 * (6148914691236517 / 295147905179352825856))
     = 7205759403792793 / 72057594037927936"
  using fl_eqI [of "- 4" "4800 * (6148914691236517 / 295147905179352825856)" 7205759403792793]
  by (simp add: powr_neg_numeral)

lemma fl_val_4800: "fl (1 / (7205759403792793 / 72057594037927936)) = 10"
  using fl_eqI [of 3 "1 / (7205759403792793 / 72057594037927936)" 5629499534213120]
  by (simp add: powr_neg_numeral)

lemma fl_bin_4800:
  assumes "i < 2401"
  shows "fl (real i * 10) = 10 * real i"
proof (cases "i = 0")
  case True
  then show ?thesis by (simp add: fl_def)
next
  case False
  have e: "real i * 10 = of_int (10 * int i)" by simp
  have "fl (of_int (10 * int i)) = of_int (10 * int i)"
    using False assms by (intro fl_of_int_exact) simp_all
  then show ?thesis unfolding e by simp
qed

lemma rfftfreq_4800_nth:
  assumes "i < 2401"
  shows "rfftfreq 4800 ! i = 10 * real i"
proof -
  have "rfftfreq 4800 = map (\<lambda>i. fl (real i * 10)) [0..<2401]"
    unfolding rfftfreq_def Let_def of_nat_numeral fl_1_48000 fl_4800_d fl_val_4800
    by (simp del: upt_rec_numeral)
  then have "rfftfreq 4800 ! i = fl (real i * 10)"
    using assms by (simp del: upt_rec_numeral)
  with assms show ?thesis by (simp add: fl_bin_4800)
qed

text \<open>
  Claim C5 asks for the five largest-magnitude bins among the bins above 100 Hz whenever
  five such bins exist. The code first keeps the ten largest bins of the whole spectrum
  and only then drops the bins at or below 100 Hz, where the two peak searches a few
  lines above it restrict the spectrum before they select. For a 4800-sample capture
  whose ten largest bins are bins 0 to 9 (DC and components up to 90 Hz), whatever the
  rest of the spectrum, the reported list is empty although every bin from 11 on, 2390
  of the 2401, lies above 100 Hz.
\<close>

theorem top_freqs_5_low_band_empty:
  assumes "\<forall>i \<in> set (top_indices argsorted). i < 10"
  shows "top_freqs_5 (rfftfreq 4800) magnitude argsorted = []
       \<and> length (rfftfreq 4800) = 2401
       \<and> (\<forall>i. 10 < i \<and> i < 2401 \<longrightarrow> rfftfreq 4800 ! i > 100)"
proof -
  have "\<not> rfftfreq 4800 ! i > 100" if "i \<in> set (top_indices argsorted)" for i
  proof -
    from that assms have i: "i < 10" by blast
    then have "rfftfreq 4800 ! i = 10 * real i" by (intro rfftfreq_4800_nth) simp
    with i show ?thesis by simp
  qed
  then have "top_bins (rfftfreq 4800) argsorted = []"
    unfolding top_bins_def filter_empty_conv by blast
  then have a: "top_freqs_5 (rfftfreq 4800) magnitude argsorted = []"
    by (simp add: top_freqs_5_def)
  have b: "length (rfftfreq 4800) = 2401"
    by (simp add: rfftfreq_def Let_def del: upt_rec_numeral)
  have c: "rfftfreq 4800 ! i > 100" if "10 < i \<and> i < 2401" for i
    using that by (simp add: rfftfreq_4800_nth)
  from a b c show ?thesis by blast
qed

text \<open>
  A spectrum with that shape: magnitude \<open>5000 + i\<close> in bins 0 to 9 and \<open>i\<close> in every
  other bin \<open>i\<close>, whose ascending order is 10, ..., 2400, 0, ..., 9.
\<close>

lemma low_band_magnitude_nth:
  "i < 2401 \<Longrightarrow>
     map (\<lambda>i. if i < 10 then 5000 + real i else real i) [0..<2401] ! i
       = (if i < 10 then 5000 + real i else real i)"
  by (simp del: upt_rec_numeral)

lemma low_band_is_argsort:
  "is_argsort (map (\<lambda>i. if i < 10 then 5000 + real i else real i) [0..<2401])
              ([10..<2401] @ [0..<10])"
proof -
  let ?M = "map (\<lambda>i. if i < 10 then 5000 + real i else real i) [0..<2401]"
  let ?le = "\<lambda>i j. ?M ! i \<le> ?M ! j"
  have "[0..<10 + 2391] = [0..<10] @ [10..<10 + 2391]"
    by (rule upt_add_eq_append) simp
  then have "[0..<2401] = [0..<10] @ [10..<2401]"
    by (simp del: upt_rec_numeral)
  then have "mset [0..<2401] = mset ([10..<2401] @ [0..<10])"
    by (simp only: mset_append add.commute)
  moreover have "length ?M = 2401"
    by (simp del: upt_rec_numeral)
  ultimately have ms: "mset ([10..<2401] @ [0..<10]) = mset [0..<length ?M]"
    by (simp only:)
  have hi: "sorted_wrt ?le [10..<2401]"
  proof (rule sorted_wrt_mono_rel [OF _ sorted_wrt_upt])
    fix x y :: nat
    assume "x \<in> set [10..<2401]" "y \<in> set [10..<2401]" "x < y"
    then have "10 \<le> x" "x < 2401" "10 \<le> y" "y < 2401"
      by (simp_all del: upt_rec_numeral)
    with \<open>x < y\<close> show "?M ! x \<le> ?M ! y"
      by (simp only: low_band_magnitude_nth) simp
  qed
  have lo: "sorted_wrt ?le [0..<10]"
  proof (rule sorted_wrt_mono_rel [OF _ sorted_wrt_upt])
    fix x y :: nat
    assume "x \<in> set [0..<10]" "y \<in> set [0..<10]" "x < y"
    then have "x < 10" "y < 10" "x < 2401" "y < 2401"
      by (simp_all del: upt_rec_numeral)
    with \<open>x < y\<close> show "?M ! x \<le> ?M ! y"
      by (simp only: low_band_magnitude_nth) simp
  qed
  have cross: "?M ! x \<le> ?M ! y" if "x \<in> set [10..<2401]" "y \<in> set [0..<10]" for x y
  proof -
    from that have "10 \<le> x" "x < 2401" "y < 10" "y < 2401"
      by (simp_all del: upt_rec_numeral)
    then show ?thesis
      by (simp only: low_band_magnitude_nth) simp
  qed
  from hi lo cross have "sorted_wrt ?le ([10..<2401] @ [0..<10])"
    unfolding sorted_wrt_append by blast
  then have "sorted (map (\<lambda>i. ?M ! i) ([10..<2401] @ [0..<10]))"
    unfolding sorted_map .
  with ms show ?thesis unfolding is_argsort_def by blast
qed

lemma low_band_top_indices: "top_indices ([10..<2401] @ [0..<10]) = rev [0..<10]"
  by (simp add: top_indices_def del: upt_rec_numeral)

theorem top_freqs_5_low_band_empty_witness:
  "is_argsort (map (\<lambda>i. if i < 10 then 5000 + real i else real i) [0..<2401])
              ([10..<2401] @ [0..<10])
   \<and> top_freqs_5 (rfftfreq 4800)
        (map (\<lambda>i. if i < 10 then 5000 + real i else real i) [0..<2401])
        ([10..<2401] @ [0..<10]) = []
   \<and> rfftfreq 4800 ! 180 > 100"
proof -
  have "\<forall>i \<in> set (top_indices ([10..<2401] @ [0..<10])). i < 10"
    unfolding low_band_top_indices by simp
  note t = top_freqs_5_low_band_empty
    [OF this, of "map (\<lambda>i. if i < 10 then 5000 + real i else real i) [0..<2401]"]
  from t have a: "top_freqs_5 (rfftfreq 4800)
        (map (\<lambda>i. if i < 10 then 5000 + real i else real i) [0..<2401])
        ([10..<2401] @ [0..<10]) = []"
    by (rule conjunct1)
  from t have "\<forall>i. 10 < i \<and> i < 2401 \<longrightarrow> rfftfreq 4800 ! i > 100"
    by (rule conjunct2 [OF conjunct2])
  then have b: "rfftfreq 4800 ! 180 > 100" by simp
  from low_band_is_argsort a b show ?thesis by (intro conjI)
qed

subsection \<open>The 8-PSK symbol of a baseband sample\<close>













end
